theory Spec2Isabelle
  imports Main
begin

section \<open>Values and console output\<close>

text \<open>
  The component of \<^verbatim>\<open>src/app/app.component.ts\<close> has one outbound channel, the console.
  A console line is either a string or the object literal \<^verbatim>\<open>{message: 'New value'}\<close>
  that \<^verbatim>\<open>customInterval$\<close> emits.
\<close>

record payload =
  message :: string

definition new_value :: payload where
  "new_value = \<lparr>message = ''New value''\<rparr>"

datatype console_line = Str string | Obj payload

datatype 'a notification = Next 'a | Complete

section \<open>The RxJS subscriber\<close>

text \<open>
  \<^verbatim>\<open>Observable\<close>, \<^verbatim>\<open>Subscriber\<close> and \<^verbatim>\<open>ReplaySubject\<close> are RxJS's, not this
  repository's; this section and the subject functions below model what RxJS 7 does
  with them, as far as the component uses it.

  An observer is an object of callbacks; a callback is modelled by the console lines it
  writes. A missing callback writes nothing.
\<close>

record 'a observer =
  on_next :: "'a \<Rightarrow> console_line list"
  on_complete :: "console_line list"

text \<open>
  The \<^verbatim>\<open>Subscriber\<close> that RxJS wraps around an observer, which is also the handle that
  \<^verbatim>\<open>subscribe\<close> returns. \<open>closed\<close> is its stopped flag, set by \<^verbatim>\<open>complete()\<close> and by
  \<^verbatim>\<open>unsubscribe()\<close>. Two fields are bookkeeping for the proofs and are never read by the
  program: \<open>received\<close> lists the notifications that the subscriber passed on to its
  observer (a \<open>Next\<close> is an emission; a \<open>Complete\<close> is listed whether or not the
  observer has a callback for it), and \<open>finalized\<close> counts how often the body of
  \<^verbatim>\<open>unsubscribe()\<close> behind its \<^verbatim>\<open>if (!this.closed)\<close> guard has run.

  \<^verbatim>\<open>next\<close> on a stopped subscriber does nothing. \<^verbatim>\<open>complete\<close> on a stopped subscriber
  does nothing; otherwise it notifies the observer and then unsubscribes.
\<close>

record 'a subscriber =
  closed :: bool
  received :: "'a notification list"
  finalized :: nat

definition new_subscriber :: "'a subscriber" where
  "new_subscriber = \<lparr>closed = False, received = [], finalized = 0\<rparr>"

definition unsubscribe :: "'a subscriber \<Rightarrow> 'a subscriber" where
  "unsubscribe sub =
     (if closed sub then sub
      else sub\<lparr>closed := True, finalized := Suc (finalized sub)\<rparr>)"

definition subscriber_next ::
  "'a observer \<Rightarrow> 'a \<Rightarrow> 'a subscriber \<Rightarrow> 'a subscriber \<times> console_line list" where
  "subscriber_next obs v sub =
     (if closed sub then (sub, [])
      else (sub\<lparr>received := received sub @ [Next v]\<rparr>, on_next obs v))"

definition subscriber_complete ::
  "'a observer \<Rightarrow> 'a subscriber \<Rightarrow> 'a subscriber \<times> console_line list" where
  "subscriber_complete obs sub =
     (if closed sub then (sub, [])
      else (unsubscribe (sub\<lparr>received := received sub @ [Complete]\<rparr>), on_complete obs))"

section \<open>The bounded timer stream \<^verbatim>\<open>customInterval$\<close>\<close>

text \<open>
  Source lines 21 to 33. Each call of the subscribe function allocates the local
  \<^verbatim>\<open>timesExecuted\<close> and a timer by \<^verbatim>\<open>setInterval\<close>; \<open>interval_set\<close> says that
  \<^verbatim>\<open>clearInterval\<close> has not been called on it. The subscribe function returns nothing,
  so the subscription has no teardown of its own.
\<close>

record interval_state =
  timesExecuted :: nat
  interval_set :: bool
  subscriber :: "payload subscriber"

definition customInterval_subscribe :: interval_state where
  "customInterval_subscribe =
     \<lparr>timesExecuted = 0, interval_set = True, subscriber = new_subscriber\<rparr>"

text \<open>The arrow function handed to \<^verbatim>\<open>setInterval\<close> (lines 23 to 32).\<close>

definition interval_callback ::
  "payload observer \<Rightarrow> interval_state \<Rightarrow> interval_state \<times> console_line list" where
  "interval_callback obs st =
     (if timesExecuted st > 3 then
        (let (sub, out) = subscriber_complete obs (subscriber st)
         in (st\<lparr>interval_set := False, subscriber := sub\<rparr>, out))
      else
        (let (sub, out) = subscriber_next obs new_value (subscriber st)
         in (st\<lparr>subscriber := sub, timesExecuted := timesExecuted st + 1\<rparr>,
             Str ''Emitting new value...'' # out)))"

text \<open>One period of the timer elapses: the callback runs if the timer is still set.\<close>

definition tick ::
  "payload observer \<Rightarrow> interval_state \<Rightarrow> interval_state \<times> console_line list" where
  "tick obs st = (if interval_set st then interval_callback obs st else (st, []))"

fun ticks ::
  "payload observer \<Rightarrow> nat \<Rightarrow> interval_state \<Rightarrow> interval_state \<times> console_line list" where
  "ticks obs 0 st = (st, [])"
| "ticks obs (Suc n) st =
     (let (st1, out1) = tick obs st; (st2, out2) = ticks obs n st1
      in (st2, out1 @ out2))"



text \<open>
  \<^verbatim>\<open>unsubscribe()\<close> on the handle of a \<^verbatim>\<open>customInterval$\<close> subscription: it closes the
  subscriber and, with no teardown registered, leaves the timer alone.
\<close>

definition cancel :: "interval_state \<Rightarrow> interval_state" where
  "cancel st = st\<lparr>subscriber := unsubscribe (subscriber st)\<rparr>"

text \<open>
  Several subscriptions to \<^verbatim>\<open>customInterval$\<close>, in the order of their
  \<^verbatim>\<open>subscribe\<close> calls: every call runs the subscribe function, so every subscription
  has a state of its own. \<open>fire obs i\<close> is one period of the \<open>i\<close>-th timer elapsing
  (\<open>obs i\<close> is that subscription's observer); \<open>fire_all\<close> runs a schedule, the list of
  the timers in the order they fire.
\<close>

definition subscribe_times :: "nat \<Rightarrow> interval_state list" where
  "subscribe_times k = replicate k customInterval_subscribe"

definition fire ::
  "(nat \<Rightarrow> payload observer) \<Rightarrow> nat \<Rightarrow> interval_state list \<Rightarrow> interval_state list" where
  "fire obs i subs =
     (if i < length subs then subs[i := fst (tick (obs i) (subs ! i))] else subs)"

fun fire_all ::
  "(nat \<Rightarrow> payload observer) \<Rightarrow> nat list \<Rightarrow> interval_state list \<Rightarrow> interval_state list" where
  "fire_all obs [] subs = subs"
| "fire_all obs (i # sched) subs = fire_all obs sched (fire obs i subs)"

section \<open>The component\<close>

text \<open>
  Template literals print a number in decimal. \<^verbatim>\<open>clickCount\<close> is a JavaScript number
  that only ever holds a count of clicks; it is modelled as a natural number (a double
  is exact on the integers below \<open>2 ^ 53\<close>).
\<close>

fun string_of_nat :: "nat \<Rightarrow> string" where
  "string_of_nat n =
     (if n < 10 then [''0123456789'' ! n]
      else string_of_nat (n div 10) @ [''0123456789'' ! (n mod 10)])"

declare string_of_nat.simps [simp del]

definition clicked_message :: "nat \<Rightarrow> string" where
  "clicked_message n = ''Clicked button '' @ string_of_nat n @ '' times.''"

text \<open>
  The state of one \<^verbatim>\<open>AppComponent\<close>.
  \<^item> \<open>clickCount\<close> is the signal of line 11.
  \<^item> \<^verbatim>\<open>clickCount$ = toObservable(this.clickCount)\<close> (line 14) is Angular's: a
    \<^verbatim>\<open>ReplaySubject(1)\<close> fed by an effect that reads the signal. \<open>subject_buffer\<close> and
    \<open>subject_stopped\<close> are the subject's buffer and stopped flag, \<open>watcher_scheduled\<close>
    says that the effect is due to run at the host's next flush of effects (an effect
    runs once after its creation and once after each change of a signal it read, never
    inside the write itself), and \<open>watcher_alive\<close> that it has not been destroyed.
  \<^item> \<open>subscription\<close> is the constant of that name in \<^verbatim>\<open>ngOnInit\<close> (line 67), absent
    before \<^verbatim>\<open>ngOnInit\<close> has run.
  \<^item> \<open>custom_subscription\<close> is the subscription to \<^verbatim>\<open>customInterval$\<close> of line 61,
    whose handle \<^verbatim>\<open>ngOnInit\<close> does not keep.
  \<^item> \<open>console\<close> is everything written by \<^verbatim>\<open>console.log\<close> so far.

  \<^verbatim>\<open>interval$\<close> and \<^verbatim>\<open>intervalSignal\<close> (lines 17 and 18) write nothing, are read by
  nothing in this file and are left out.
\<close>

record AppComponent =
  clickCount :: nat
  watcher_scheduled :: bool
  watcher_alive :: bool
  subject_buffer :: "nat option"
  subject_stopped :: bool
  subscription :: "nat subscriber option"
  custom_subscription :: "interval_state option"
  console :: "console_line list"

text \<open>The field initialisers and the (empty) constructor.\<close>

definition constructed :: AppComponent where
  "constructed =
     \<lparr>clickCount = 0, watcher_scheduled = True, watcher_alive = True,
      subject_buffer = None, subject_stopped = False, subscription = None,
      custom_subscription = None, console = []\<rparr>"

text \<open>The observer of lines 61 to 64.\<close>

definition custom_observer :: "payload observer" where
  "custom_observer = \<lparr>on_next = (\<lambda>val. [Obj val]), on_complete = [Str ''COMPLETED'']\<rparr>"

text \<open>
  The observer of lines 67 to 69. Its callback ignores \<^verbatim>\<open>val\<close> and reads the signal
  when it runs; it has no \<^verbatim>\<open>complete\<close> callback.
\<close>

definition click_observer :: "AppComponent \<Rightarrow> nat observer" where
  "click_observer c =
     \<lparr>on_next = (\<lambda>val. [Str (clicked_message (clickCount c))]), on_complete = []\<rparr>"

text \<open>The subject hands a notification to its subscriber, if it has one.\<close>

definition subject_deliver :: "nat \<Rightarrow> AppComponent \<Rightarrow> AppComponent" where
  "subject_deliver v c =
     (case subscription c of
        None \<Rightarrow> c
      | Some sub \<Rightarrow>
          (let (sub', out) = subscriber_next (click_observer c) v sub
           in c\<lparr>subscription := Some sub', console := console c @ out\<rparr>))"

definition subject_next :: "nat \<Rightarrow> AppComponent \<Rightarrow> AppComponent" where
  "subject_next v c =
     (if subject_stopped c then c else subject_deliver v (c\<lparr>subject_buffer := Some v\<rparr>))"

definition subject_complete :: "AppComponent \<Rightarrow> AppComponent" where
  "subject_complete c =
     (if subject_stopped c then c
      else
        (case subscription c of
           None \<Rightarrow> c\<lparr>subject_stopped := True\<rparr>
         | Some sub \<Rightarrow>
             (let (sub', out) = subscriber_complete (click_observer c) sub
              in c\<lparr>subject_stopped := True, subscription := Some sub',
                   console := console c @ out\<rparr>)))"

text \<open>
  The host flushes its effects: the effect of \<^verbatim>\<open>toObservable\<close> reads the signal and
  pushes the value into the subject.
\<close>

definition flush_effects :: "AppComponent \<Rightarrow> AppComponent" where
  "flush_effects c =
     (if watcher_scheduled c \<and> watcher_alive c
      then subject_next (clickCount c) (c\<lparr>watcher_scheduled := False\<rparr>)
      else c)"

text \<open>
  \<^verbatim>\<open>ngOnInit\<close> (lines 46 to 76): subscribe to \<^verbatim>\<open>customInterval$\<close>, subscribe to
  \<^verbatim>\<open>clickCount$\<close> (a replay subject first replays its buffer to a new subscriber, and
  completes it if the subject has stopped), register the teardown callback.
\<close>

definition ngOnInit :: "AppComponent \<Rightarrow> AppComponent" where
  "ngOnInit c =
     (let c1 = c\<lparr>custom_subscription := Some customInterval_subscribe\<rparr>;
          c2 = c1\<lparr>subscription := Some new_subscriber\<rparr>;
          c3 = (case subject_buffer c2 of None \<Rightarrow> c2 | Some v \<Rightarrow> subject_deliver v c2)
      in if subject_stopped c3
         then c3\<lparr>subscription :=
                map_option (\<lambda>sub. fst (subscriber_complete (click_observer c3) sub))
                  (subscription c3)\<rparr>
         else c3)"

text \<open>\<^verbatim>\<open>onClick\<close> (lines 78 to 81): the signal changes and its effect is scheduled.\<close>

definition onClick :: "AppComponent \<Rightarrow> AppComponent" where
  "onClick c = c\<lparr>clickCount := clickCount c + 1, watcher_scheduled := True\<rparr>"

text \<open>The callback handed to \<^verbatim>\<open>destroyRef.onDestroy\<close> (lines 71 to 75).\<close>

definition teardown_callback :: "AppComponent \<Rightarrow> AppComponent" where
  "teardown_callback c = c\<lparr>subscription := map_option unsubscribe (subscription c)\<rparr>"

text \<open>
  The callback that \<^verbatim>\<open>toObservable\<close> itself registered with the same
  \<^verbatim>\<open>DestroyRef\<close>, at construction: it destroys the effect and completes the subject.
\<close>

definition toObservable_cleanup :: "AppComponent \<Rightarrow> AppComponent" where
  "toObservable_cleanup c = subject_complete (c\<lparr>watcher_alive := False\<rparr>)"

text \<open>One period of the timer of the component's \<^verbatim>\<open>customInterval$\<close> subscription.\<close>

definition timer_tick :: "AppComponent \<Rightarrow> AppComponent" where
  "timer_tick c =
     (case custom_subscription c of
        None \<Rightarrow> c
      | Some st \<Rightarrow>
          (let (st', out) = tick custom_observer st
           in c\<lparr>custom_subscription := Some st', console := console c @ out\<rparr>))"

text \<open>
  What the host does to an initialised component. A click on the button runs
  \<^verbatim>\<open>onClick\<close> and then the host's change detection, which flushes the effects.
  Destruction runs the callbacks registered with \<^verbatim>\<open>DestroyRef\<close> in the order of
  their registration.
\<close>

datatype event = Click | Tick | Destroy

fun step :: "event \<Rightarrow> AppComponent \<Rightarrow> AppComponent" where
  "step Click c = flush_effects (onClick c)"
| "step Tick c = timer_tick c"
| "step Destroy c = teardown_callback (toObservable_cleanup c)"

fun run :: "event list \<Rightarrow> AppComponent \<Rightarrow> AppComponent" where
  "run [] c = c"
| "run (e # es) c = run es (step e c)"

text \<open>
  Initialisation: the host constructs the component, calls \<^verbatim>\<open>ngOnInit\<close> and ends its
  first change detection with a flush of the effects.
\<close>

definition initialised :: AppComponent where
  "initialised = flush_effects (ngOnInit constructed)"

text \<open>What the two observers of the component have been handed so far.\<close>

definition click_received :: "AppComponent \<Rightarrow> nat notification list" where
  "click_received c = (case subscription c of None \<Rightarrow> [] | Some sub \<Rightarrow> received sub)"

definition custom_received :: "AppComponent \<Rightarrow> payload notification list" where
  "custom_received c =
     (case custom_subscription c of None \<Rightarrow> [] | Some st \<Rightarrow> received (subscriber st))"

text \<open>
  Counting what an observer has been handed, and how often the guarded body of
  \<^verbatim>\<open>unsubscribe()\<close> has run for each of the component's two subscriptions.
\<close>

fun emissions :: "'a notification list \<Rightarrow> nat" where
  "emissions [] = 0"
| "emissions (Next v # ns) = Suc (emissions ns)"
| "emissions (Complete # ns) = emissions ns"

fun completions :: "'a notification list \<Rightarrow> nat" where
  "completions [] = 0"
| "completions (Next v # ns) = completions ns"
| "completions (Complete # ns) = Suc (completions ns)"

definition click_finalized :: "AppComponent \<Rightarrow> nat" where
  "click_finalized c = (case subscription c of None \<Rightarrow> 0 | Some sub \<Rightarrow> finalized sub)"

definition custom_finalized :: "AppComponent \<Rightarrow> nat" where
  "custom_finalized c =
     (case custom_subscription c of None \<Rightarrow> 0 | Some st \<Rightarrow> finalized (subscriber st))"

text \<open>
  Three predicates for the proofs. A component is \<open>live\<close> while its effect runs, its
  subject is open and its \<open>subscription\<close> is open. It is \<open>coherent\<close> when its flags fit
  together, and \<open>accounted\<close> when every console line is matched by a notification.
\<close>

definition live :: "AppComponent \<Rightarrow> bool" where
  "live c = (watcher_alive c \<and> \<not> subject_stopped c \<and>
     (case subscription c of None \<Rightarrow> False | Some sub \<Rightarrow> \<not> closed sub))"

definition coherent :: "AppComponent \<Rightarrow> bool" where
  "coherent c =
     ((case subscription c of
         None \<Rightarrow> True
       | Some sub \<Rightarrow>
           finalized sub = (if closed sub then 1 else 0) \<and> (subject_stopped c \<longrightarrow> closed sub))
      \<and> (case custom_subscription c of
            None \<Rightarrow> True
          | Some st \<Rightarrow>
              finalized (subscriber st) = (if closed (subscriber st) then 1 else 0)
              \<and> (interval_set st \<longrightarrow> \<not> closed (subscriber st))))"

definition accounted :: "AppComponent \<Rightarrow> bool" where
  "accounted c =
     (length (console c) =
        2 * emissions (custom_received c) + completions (custom_received c)
          + emissions (click_received c)
      \<and> count_list (console c) (Str ''Emitting new value...'') = emissions (custom_received c)
      \<and> count_list (console c) (Obj new_value) = emissions (custom_received c)
      \<and> count_list (console c) (Str ''COMPLETED'') = completions (custom_received c))"

section \<open>Properties of the bounded timer stream\<close>

lemma tick_unset: "\<not> interval_set st \<Longrightarrow> tick obs st = (st, [])"
  by (simp add: tick_def)

lemma ticks_unset: "\<not> interval_set st \<Longrightarrow> ticks obs n st = (st, [])"
  by (induction n) (simp_all add: tick_unset)

lemma tick_open_below:
  assumes "interval_set st" "\<not> closed (subscriber st)" "timesExecuted st \<le> 3"
  shows "tick obs st =
    (st\<lparr>subscriber := (subscriber st)\<lparr>received := received (subscriber st) @ [Next new_value]\<rparr>,
        timesExecuted := Suc (timesExecuted st)\<rparr>,
     Str ''Emitting new value...'' # on_next obs new_value)"
  using assms by (simp add: tick_def interval_callback_def subscriber_next_def)

lemma tick_open_limit:
  assumes "interval_set st" "\<not> closed (subscriber st)" "3 < timesExecuted st"
  shows "tick obs st =
    (st\<lparr>interval_set := False,
        subscriber := (subscriber st)\<lparr>closed := True,
          received := received (subscriber st) @ [Complete],
          finalized := Suc (finalized (subscriber st))\<rparr>\<rparr>,
     on_complete obs)"
  using assms by (simp add: tick_def interval_callback_def subscriber_complete_def unsubscribe_def)

lemma tick_closed_below:
  assumes "interval_set st" "closed (subscriber st)" "timesExecuted st \<le> 3"
  shows "tick obs st = (st\<lparr>timesExecuted := Suc (timesExecuted st)\<rparr>, [Str ''Emitting new value...''])"
  using assms by (simp add: tick_def interval_callback_def subscriber_next_def)

lemma tick_closed_limit:
  assumes "interval_set st" "closed (subscriber st)" "3 < timesExecuted st"
  shows "tick obs st = (st\<lparr>interval_set := False\<rparr>, [])"
  using assms by (simp add: tick_def interval_callback_def subscriber_complete_def)

lemma ticks_open:
  assumes "interval_set st" "\<not> closed (subscriber st)" "timesExecuted st \<le> 4"
  shows "ticks obs n st =
    (if n \<le> 4 - timesExecuted st then
       (st\<lparr>subscriber := (subscriber st)\<lparr>received :=
              received (subscriber st) @ replicate n (Next new_value)\<rparr>,
           timesExecuted := timesExecuted st + n\<rparr>,
        concat (replicate n (Str ''Emitting new value...'' # on_next obs new_value)))
     else
       (st\<lparr>interval_set := False,
           subscriber := (subscriber st)\<lparr>closed := True,
             received := received (subscriber st)
               @ replicate (4 - timesExecuted st) (Next new_value) @ [Complete],
             finalized := Suc (finalized (subscriber st))\<rparr>,
           timesExecuted := 4\<rparr>,
        concat (replicate (4 - timesExecuted st) (Str ''Emitting new value...'' # on_next obs new_value))
          @ on_complete obs))"
  using assms
proof (induction n arbitrary: st)
  case 0
  then show ?case by simp
next
  case (Suc n)
  show ?case
  proof (cases "timesExecuted st \<le> 3")
    case True
    let ?st1 = "st\<lparr>subscriber := (subscriber st)\<lparr>received := received (subscriber st) @ [Next new_value]\<rparr>,
        timesExecuted := Suc (timesExecuted st)\<rparr>"
    have t: "tick obs st = (?st1, Str ''Emitting new value...'' # on_next obs new_value)"
      using Suc.prems True by (simp add: tick_open_below)
    have ih: "ticks obs n ?st1 = (if n \<le> 4 - timesExecuted ?st1 then
       (?st1\<lparr>subscriber := (subscriber ?st1)\<lparr>received :=
              received (subscriber ?st1) @ replicate n (Next new_value)\<rparr>,
           timesExecuted := timesExecuted ?st1 + n\<rparr>,
        concat (replicate n (Str ''Emitting new value...'' # on_next obs new_value)))
     else
       (?st1\<lparr>interval_set := False,
           subscriber := (subscriber ?st1)\<lparr>closed := True,
             received := received (subscriber ?st1)
               @ replicate (4 - timesExecuted ?st1) (Next new_value) @ [Complete],
             finalized := Suc (finalized (subscriber ?st1))\<rparr>,
           timesExecuted := 4\<rparr>,
        concat (replicate (4 - timesExecuted ?st1) (Str ''Emitting new value...'' # on_next obs new_value))
          @ on_complete obs))"
      using Suc.prems True by (intro Suc.IH) simp_all
    have r: "4 - timesExecuted st = Suc (3 - timesExecuted st)"
      using True by simp
    show ?thesis
      using True by (simp add: t ih r replicate_append_same)
  next
    case False
    then have k: "timesExecuted st = 4" using Suc.prems by simp
    show ?thesis
      using Suc.prems k by (simp add: tick_open_limit ticks_unset)
  qed
qed


lemma ticks_closed:
  assumes "interval_set st" "closed (subscriber st)" "timesExecuted st \<le> 4"
  shows "ticks obs n st =
    (if n \<le> 4 - timesExecuted st then
       (st\<lparr>timesExecuted := timesExecuted st + n\<rparr>,
        replicate n (Str ''Emitting new value...''))
     else
       (st\<lparr>interval_set := False, timesExecuted := 4\<rparr>,
        replicate (4 - timesExecuted st) (Str ''Emitting new value...'')))"
  using assms
proof (induction n arbitrary: st)
  case 0
  then show ?case by simp
next
  case (Suc n)
  show ?case
  proof (cases "timesExecuted st \<le> 3")
    case True
    have r: "4 - timesExecuted st = Suc (3 - timesExecuted st)"
      using True by simp
    show ?thesis
      using Suc.prems True Suc.IH [of "st\<lparr>timesExecuted := Suc (timesExecuted st)\<rparr>"]
      by (simp add: tick_closed_below r)
  next
    case False
    then have k: "timesExecuted st = 4" using Suc.prems by simp
    show ?thesis
      using Suc.prems k by (simp add: tick_closed_limit ticks_unset)
  qed
qed

lemma fst_ticks_Suc: "fst (ticks obs (Suc n) st) = fst (ticks obs n (fst (tick obs st)))"
  by (simp add: case_prod_unfold Let_def)

lemma snd_ticks_Suc:
  "snd (ticks obs (Suc n) st) = snd (tick obs st) @ snd (ticks obs n (fst (tick obs st)))"
  by (simp add: case_prod_unfold Let_def)

lemma tick_closed_subscriber:
  "closed (subscriber st) \<Longrightarrow> subscriber (fst (tick obs st)) = subscriber st"
  by (simp add: tick_def interval_callback_def subscriber_next_def subscriber_complete_def)

lemma ticks_closed_subscriber:
  "closed (subscriber st) \<Longrightarrow> subscriber (fst (ticks obs n st)) = subscriber st"
proof (induction n arbitrary: st)
  case 0
  then show ?case by simp
next
  case (Suc n)
  then show ?case by (simp only: fst_ticks_Suc) (simp add: tick_closed_subscriber)
qed

lemma fresh_facts:
  "interval_set customInterval_subscribe"
  "\<not> closed (subscriber customInterval_subscribe)"
  "timesExecuted customInterval_subscribe = 0"
  "received (subscriber customInterval_subscribe) = []"
  "finalized (subscriber customInterval_subscribe) = 0"
  by (simp_all add: customInterval_subscribe_def new_subscriber_def)

lemma ticks_fresh:
  "ticks obs n customInterval_subscribe =
    (if n \<le> 4 then
       (\<lparr>timesExecuted = n, interval_set = True,
         subscriber = \<lparr>closed = False, received = replicate n (Next new_value), finalized = 0\<rparr>\<rparr>,
        concat (replicate n (Str ''Emitting new value...'' # on_next obs new_value)))
     else
       (\<lparr>timesExecuted = 4, interval_set = False,
         subscriber = \<lparr>closed = True, received = replicate 4 (Next new_value) @ [Complete],
           finalized = 1\<rparr>\<rparr>,
        concat (replicate 4 (Str ''Emitting new value...'' # on_next obs new_value))
          @ on_complete obs))"
  using ticks_open [of customInterval_subscribe obs n]
  by (simp add: fresh_facts customInterval_subscribe_def new_subscriber_def)


lemma cancel_facts:
  "interval_set (cancel st) = interval_set st"
  "timesExecuted (cancel st) = timesExecuted st"
  "closed (subscriber (cancel st))"
  "received (subscriber (cancel st)) = received (subscriber st)"
  by (simp_all add: cancel_def unsubscribe_def)

text \<open>
  Claim C3, as the code has it. Cancelling a subscription to \<^verbatim>\<open>customInterval$\<close>
  before the first period has elapsed: however many periods follow, the subscriber is
  handed nothing.
\<close>

theorem C3_cancel_before_first_tick_no_delivery:
  "received (subscriber (fst (ticks obs n (cancel customInterval_subscribe)))) = []"
  by (simp add: ticks_closed_subscriber cancel_facts fresh_facts)

text \<open>
  Claim C3 as stated also wants no emission-related effect. The timer is still set after
  the cancellation, and its callback writes its line to the console when the first
  period elapses.
\<close>

theorem C3_cancel_before_first_tick_counterexample:
  "\<not> (received (subscriber (fst (ticks custom_observer 1 (cancel customInterval_subscribe)))) = []
      \<and> snd (ticks custom_observer 1 (cancel customInterval_subscribe)) = [])"
proof -
  have "snd (ticks custom_observer 1 (cancel customInterval_subscribe)) =
      [Str ''Emitting new value...'']"
    by (simp only: ticks_closed cancel_facts fresh_facts) simp
  then show ?thesis by simp
qed

text \<open>
  Claim C9. The subscribe function returns no teardown, so \<^verbatim>\<open>unsubscribe()\<close> leaves
  the timer set. A subscription cancelled after \<open>j \<le> 4\<close> periods, that is before its
  completion: in the \<open>n\<close> periods that follow, the callback writes
  \<^verbatim>\<open>Emitting new value...\<close> once per period until the counter has reached 4
  (\<open>4 - j\<close> lines in all), the observer is handed nothing beyond the \<open>j\<close> payloads it
  had, and the timer is cleared by the first callback that finds the counter above 3.
\<close>

theorem C9_timer_survives_unsubscribe:
  assumes "j \<le> 4"
  shows "interval_set (cancel (fst (ticks obs j customInterval_subscribe)))
    \<and> snd (ticks obs n (cancel (fst (ticks obs j customInterval_subscribe)))) =
        replicate (min n (4 - j)) (Str ''Emitting new value...'')
    \<and> received (subscriber (fst (ticks obs n (cancel (fst (ticks obs j customInterval_subscribe)))))) =
        replicate j (Next new_value)
    \<and> timesExecuted (fst (ticks obs n (cancel (fst (ticks obs j customInterval_subscribe))))) =
        min 4 (j + n)
    \<and> interval_set (fst (ticks obs n (cancel (fst (ticks obs j customInterval_subscribe))))) =
        (n \<le> 4 - j)"
proof -
  let ?st = "cancel (fst (ticks obs j customInterval_subscribe))"
  have s: "interval_set ?st" "closed (subscriber ?st)" "timesExecuted ?st = j"
    "received (subscriber ?st) = replicate j (Next new_value)"
    using assms by (simp_all add: cancel_facts ticks_fresh)
  have t: "ticks obs n ?st =
    (if n \<le> 4 - j then
       (?st\<lparr>timesExecuted := j + n\<rparr>, replicate n (Str ''Emitting new value...''))
     else
       (?st\<lparr>interval_set := False, timesExecuted := 4\<rparr>,
        replicate (4 - j) (Str ''Emitting new value...'')))"
    using ticks_closed [of ?st obs n] s assms by simp
  show ?thesis
    unfolding t using s assms by (auto simp: min_def)
qed

theorem C9_timer_survives_unsubscribe_witness:
  "snd (ticks custom_observer 5 (cancel (fst (ticks custom_observer 1 customInterval_subscribe)))) =
     [Str ''Emitting new value...'', Str ''Emitting new value...'', Str ''Emitting new value...'']
   \<and> received (subscriber (fst (ticks custom_observer 5
        (cancel (fst (ticks custom_observer 1 customInterval_subscribe)))))) = [Next new_value]
   \<and> \<not> interval_set (fst (ticks custom_observer 5
        (cancel (fst (ticks custom_observer 1 customInterval_subscribe)))))"
  using C9_timer_survives_unsubscribe [of 1 custom_observer 5]
  by (simp add: numeral_eq_Suc)


text \<open>
  Claim C7. One run of the timer callback, for a timer that is still set:
  \<^item> with the counter below 4 it writes its line, counts, keeps the timer set and, if the
    subscriber is still open, hands it the payload;
  \<^item> with the counter at 4 or more it clears the timer and, if the subscriber is still
    open, hands it the completion and closes it;
  \<^item> a closed subscriber (completed or cancelled) is handed nothing ever after;
  \<^item> a cleared timer does nothing ever after.
\<close>

theorem C7_timer_callback_contract:
  "(interval_set st \<and> timesExecuted st < 4 \<longrightarrow>
      timesExecuted (fst (tick obs st)) = timesExecuted st + 1
      \<and> interval_set (fst (tick obs st))
      \<and> (\<not> closed (subscriber st) \<longrightarrow>
           received (subscriber (fst (tick obs st))) = received (subscriber st) @ [Next new_value]
           \<and> \<not> closed (subscriber (fst (tick obs st)))
           \<and> snd (tick obs st) = Str ''Emitting new value...'' # on_next obs new_value))
   \<and> (interval_set st \<and> 4 \<le> timesExecuted st \<longrightarrow>
      \<not> interval_set (fst (tick obs st))
      \<and> timesExecuted (fst (tick obs st)) = timesExecuted st
      \<and> (\<not> closed (subscriber st) \<longrightarrow>
           received (subscriber (fst (tick obs st))) = received (subscriber st) @ [Complete]
           \<and> closed (subscriber (fst (tick obs st)))
           \<and> snd (tick obs st) = on_complete obs))
   \<and> (closed (subscriber st) \<longrightarrow>
      received (subscriber (fst (ticks obs n st))) = received (subscriber st))
   \<and> (\<not> interval_set st \<longrightarrow> ticks obs n st = (st, []))"
proof (intro conjI impI)
  show "received (subscriber (fst (ticks obs n st))) = received (subscriber st)"
    if "closed (subscriber st)"
    using that by (simp add: ticks_closed_subscriber)
  show "ticks obs n st = (st, [])" if "\<not> interval_set st"
    using that by (rule ticks_unset)
qed (simp_all add: tick_def interval_callback_def subscriber_next_def
      subscriber_complete_def unsubscribe_def)

theorem C7_timer_callback_contract_witness:
  "timesExecuted (fst (tick custom_observer customInterval_subscribe)) = 1
   \<and> received (subscriber (fst (tick custom_observer customInterval_subscribe))) = [Next new_value]
   \<and> snd (tick custom_observer customInterval_subscribe) =
        [Str ''Emitting new value...'', Obj new_value]
   \<and> \<not> interval_set (fst (tick custom_observer (fst (ticks custom_observer 4 customInterval_subscribe))))
   \<and> received (subscriber (fst (tick custom_observer
        (fst (ticks custom_observer 4 customInterval_subscribe))))) =
        [Next new_value, Next new_value, Next new_value, Next new_value, Complete]
   \<and> received (subscriber (fst (ticks custom_observer 7
        (fst (ticks custom_observer 5 customInterval_subscribe))))) =
        [Next new_value, Next new_value, Next new_value, Next new_value, Complete]
   \<and> ticks custom_observer 7 (fst (ticks custom_observer 5 customInterval_subscribe)) =
        (fst (ticks custom_observer 5 customInterval_subscribe), [])"
  using C7_timer_callback_contract [of customInterval_subscribe custom_observer 0]
    C7_timer_callback_contract
      [of "fst (ticks custom_observer 4 customInterval_subscribe)" custom_observer 0]
    C7_timer_callback_contract
      [of "fst (ticks custom_observer 5 customInterval_subscribe)" custom_observer 7]
  by (simp add: ticks_fresh fresh_facts custom_observer_def numeral_eq_Suc)


lemma length_fire [simp]: "length (fire obs i subs) = length subs"
  by (simp add: fire_def)

lemma length_fire_all [simp]: "length (fire_all obs sched subs) = length subs"
  by (induction sched arbitrary: subs) simp_all

lemma fire_other: "i \<noteq> j \<Longrightarrow> fire obs i subs ! j = subs ! j"
  by (simp add: fire_def)

lemma fire_same: "j < length subs \<Longrightarrow> fire obs j subs ! j = fst (tick (obs j) (subs ! j))"
  by (simp add: fire_def)

lemma fire_all_nth:
  "j < length subs \<Longrightarrow>
   fire_all obs sched subs ! j = fst (ticks (obs j) (count_list sched j) (subs ! j))"
proof (induction sched arbitrary: subs)
  case Nil
  then show ?case by simp
next
  case (Cons i sched)
  have len: "j < length (fire obs i subs)"
    using Cons.prems by simp
  show ?case
  proof (cases "i = j")
    case True
    then show ?thesis
      using Cons.IH [OF len] Cons.prems by (simp add: fire_same fst_ticks_Suc del: ticks.simps)
  next
    case False
    then show ?thesis
      using Cons.IH [OF len] by (simp add: fire_other)
  qed
qed

text \<open>
  Claim C10. \<^verbatim>\<open>customInterval$\<close> is cold. Of \<open>k\<close> subscriptions, the \<open>j\<close>-th starts
  with a counter of its own at 0 and a timer of its own; a period of another
  subscription's timer leaves it as it is; and whatever the order in which the timers
  fire, it is in the state that its own periods alone (\<open>count_list sched j\<close> of them)
  lead to from a fresh subscription, so it is handed its own four payloads and its own
  completion.
\<close>

theorem C10_subscriptions_are_independent:
  assumes "j < k"
  shows "timesExecuted (subscribe_times k ! j) = 0
    \<and> interval_set (subscribe_times k ! j)
    \<and> (i \<noteq> j \<longrightarrow> fire obs i (fire_all obs sched (subscribe_times k)) ! j =
          fire_all obs sched (subscribe_times k) ! j)
    \<and> fire_all obs sched (subscribe_times k) ! j =
        fst (ticks (obs j) (count_list sched j) customInterval_subscribe)
    \<and> received (subscriber (fire_all obs sched (subscribe_times k) ! j)) =
        replicate (min (count_list sched j) 4) (Next new_value)
          @ (if 5 \<le> count_list sched j then [Complete] else [])"
proof -
  have n: "subscribe_times k ! j = customInterval_subscribe"
    using assms by (simp add: subscribe_times_def)
  have l: "j < length (subscribe_times k)"
    using assms by (simp add: subscribe_times_def)
  have a: "fire_all obs sched (subscribe_times k) ! j =
      fst (ticks (obs j) (count_list sched j) customInterval_subscribe)"
    using fire_all_nth [OF l, of obs sched] by (simp add: n)
  have b: "i \<noteq> j \<longrightarrow> fire obs i (fire_all obs sched (subscribe_times k)) ! j =
      fire_all obs sched (subscribe_times k) ! j"
    by (simp add: fire_other)
  have c: "received (subscriber (fire_all obs sched (subscribe_times k) ! j)) =
      replicate (min (count_list sched j) 4) (Next new_value)
        @ (if 5 \<le> count_list sched j then [Complete] else [])"
    unfolding a by (simp add: ticks_fresh min_def)
  show ?thesis
    using a b c by (simp add: n fresh_facts)
qed

theorem C10_subscriptions_are_independent_witness:
  "received (subscriber (fire_all (\<lambda>i. custom_observer) [0, 1, 0, 0, 1, 0, 0]
       (subscribe_times 2) ! 0)) =
     [Next new_value, Next new_value, Next new_value, Next new_value, Complete]
   \<and> received (subscriber (fire_all (\<lambda>i. custom_observer) [0, 1, 0, 0, 1, 0, 0]
       (subscribe_times 2) ! 1)) =
     [Next new_value, Next new_value]
   \<and> timesExecuted (fire_all (\<lambda>i. custom_observer) [0, 1, 0, 0, 1, 0, 0]
       (subscribe_times 2) ! 1) = 2"
  using C10_subscriptions_are_independent [of 0 2 0 "\<lambda>i. custom_observer" "[0, 1, 0, 0, 1, 0, 0]"]
    C10_subscriptions_are_independent [of 1 2 0 "\<lambda>i. custom_observer" "[0, 1, 0, 0, 1, 0, 0]"]
  by (simp add: ticks_fresh numeral_eq_Suc)

section \<open>Properties of the component\<close>

lemma initialised_eq:
  "initialised =
     \<lparr>clickCount = 0, watcher_scheduled = False, watcher_alive = True,
      subject_buffer = Some 0, subject_stopped = False,
      subscription = Some \<lparr>closed = False, received = [Next 0], finalized = 0\<rparr>,
      custom_subscription = Some customInterval_subscribe,
      console = [Str (clicked_message 0)]\<rparr>"
  by (simp add: initialised_def ngOnInit_def constructed_def flush_effects_def subject_next_def
      subject_deliver_def subscriber_next_def new_subscriber_def click_observer_def)

lemma initialised_obs:
  "clickCount initialised = 0"
  "click_received initialised = [Next 0]"
  "console initialised = [Str (clicked_message 0)]"
  "custom_subscription initialised = Some customInterval_subscribe"
  by (simp_all add: initialised_eq click_received_def)

lemma live_initialised: "live initialised"
  by (simp add: initialised_eq live_def)

lemma step_Click_live:
  assumes "live c"
  shows "live (step Click c)"
    and "clickCount (step Click c) = Suc (clickCount c)"
    and "click_received (step Click c) = click_received c @ [Next (Suc (clickCount c))]"
    and "console (step Click c) = console c @ [Str (clicked_message (Suc (clickCount c)))]"
    and "custom_subscription (step Click c) = custom_subscription c"
  using assms
  by (auto simp: live_def onClick_def flush_effects_def subject_next_def subject_deliver_def
      subscriber_next_def click_observer_def click_received_def split: option.splits)

lemma clicks_live:
  assumes "live c"
  shows "live (run (replicate n Click) c)
    \<and> clickCount (run (replicate n Click) c) = clickCount c + n
    \<and> click_received (run (replicate n Click) c) =
        click_received c @ map Next [Suc (clickCount c)..<Suc (clickCount c + n)]
    \<and> console (run (replicate n Click) c) =
        console c @ map (\<lambda>k. Str (clicked_message k)) [Suc (clickCount c)..<Suc (clickCount c + n)]
    \<and> custom_subscription (run (replicate n Click) c) = custom_subscription c"
  using assms
proof (induction n arbitrary: c)
  case 0
  then show ?case by simp
next
  case (Suc n)
  have u: "[Suc (clickCount c)..<Suc (clickCount c + Suc n)] =
      Suc (clickCount c) # [Suc (Suc (clickCount c))..<Suc (Suc (clickCount c) + n)]"
    by (simp add: upt_conv_Cons)
  show ?case
    using Suc.IH [OF step_Click_live(1) [OF Suc.prems]] step_Click_live(2-5) [OF Suc.prems]
    by (simp only: replicate_Suc run.simps u) simp
qed


lemma emissions_append [simp]: "emissions (xs @ ys) = emissions xs + emissions ys"
  by (induction xs rule: emissions.induct) simp_all

lemma completions_append [simp]: "completions (xs @ ys) = completions xs + completions ys"
  by (induction xs rule: completions.induct) simp_all

lemma clicked_message_distinct [simp]:
  "clicked_message n \<noteq> ''Emitting new value...''"
  "clicked_message n \<noteq> ''COMPLETED''"
  by (simp_all add: clicked_message_def)

lemma coherent_initialised: "coherent initialised"
  by (simp add: initialised_eq coherent_def customInterval_subscribe_def new_subscriber_def)

lemma accounted_initialised: "accounted initialised"
  by (simp add: initialised_eq accounted_def custom_received_def click_received_def
      customInterval_subscribe_def new_subscriber_def)

lemma coherent_step: "coherent c \<Longrightarrow> coherent (step e c)"
proof (cases e)
  case Click
  assume "coherent c"
  then show ?thesis
    unfolding Click
    by (auto simp: coherent_def onClick_def flush_effects_def subject_next_def
        subject_deliver_def subscriber_next_def split: option.splits)
next
  case Tick
  assume "coherent c"
  then show ?thesis
    unfolding Tick
    by (auto simp: coherent_def timer_tick_def tick_def interval_callback_def
        subscriber_next_def subscriber_complete_def unsubscribe_def split: option.splits)
next
  case Destroy
  assume "coherent c"
  then show ?thesis
    unfolding Destroy
    by (auto simp: coherent_def teardown_callback_def toObservable_cleanup_def
        subject_complete_def subscriber_complete_def unsubscribe_def split: option.splits)
qed

lemma accounted_step:
  assumes "coherent c" "accounted c"
  shows "accounted (step e c)"
proof (cases e)
  case Click
  show ?thesis
    using assms unfolding Click
    by (auto simp: accounted_def custom_received_def click_received_def onClick_def
        flush_effects_def subject_next_def subject_deliver_def subscriber_next_def
        click_observer_def split: option.splits)
next
  case Tick
  show ?thesis
    using assms unfolding Tick
    by (auto simp: accounted_def coherent_def custom_received_def click_received_def
        timer_tick_def tick_def interval_callback_def subscriber_next_def
        subscriber_complete_def unsubscribe_def custom_observer_def new_value_def
        split: option.splits)
next
  case Destroy
  show ?thesis
    using assms unfolding Destroy
    by (auto simp: accounted_def custom_received_def click_received_def
        teardown_callback_def toObservable_cleanup_def subject_complete_def
        subscriber_complete_def unsubscribe_def click_observer_def split: option.splits)
qed

lemma run_invariant:
  assumes "coherent c" "accounted c"
  shows "coherent (run es c) \<and> accounted (run es c)"
  using assms
proof (induction es arbitrary: c)
  case Nil
  then show ?case by simp
next
  case (Cons e es)
  then show ?case by (simp add: coherent_step accounted_step)
qed


lemma initialised_either_order: "ngOnInit (flush_effects constructed) = initialised"
  by (simp add: initialised_eq ngOnInit_def constructed_def flush_effects_def subject_next_def
      subject_deliver_def subscriber_next_def new_subscriber_def click_observer_def)

lemma custom_subscription_step:
  "custom_subscription c = Some st \<Longrightarrow>
   custom_subscription (step e c) =
     Some (if e = Tick then fst (tick custom_observer st) else st)"
  by (cases e)
    (auto simp: onClick_def flush_effects_def subject_next_def subject_deliver_def
      timer_tick_def teardown_callback_def toObservable_cleanup_def subject_complete_def
      split: option.splits prod.splits)

lemma custom_subscription_run:
  "custom_subscription c = Some st \<Longrightarrow>
   custom_subscription (run es c) =
     Some (fst (ticks custom_observer (count_list es Tick) st))"
proof (induction es arbitrary: c st)
  case Nil
  then show ?case by simp
next
  case (Cons e es)
  show ?case
    using Cons.IH [OF custom_subscription_step [OF Cons.prems, of e]]
    by (simp add: fst_ticks_Suc del: ticks.simps)
qed

lemma closed_click_step:
  assumes "subscription c = Some sub" "closed sub"
  shows "subscription (step e c) = Some sub"
  using assms
  by (cases e)
    (auto simp: onClick_def flush_effects_def subject_next_def subject_deliver_def
      subscriber_next_def timer_tick_def teardown_callback_def toObservable_cleanup_def
      subject_complete_def subscriber_complete_def unsubscribe_def
      split: option.splits prod.splits)

lemma closed_click_run:
  assumes "subscription c = Some sub" "closed sub"
  shows "subscription (run es c) = Some sub"
  using assms
proof (induction es arbitrary: c)
  case Nil
  then show ?case by simp
next
  case (Cons e es)
  then show ?case by (simp add: closed_click_step)
qed

lemma absent_click_step: "subscription c = None \<Longrightarrow> subscription (step e c) = None"
  by (cases e)
    (auto simp: onClick_def flush_effects_def subject_next_def subject_deliver_def
      timer_tick_def teardown_callback_def toObservable_cleanup_def subject_complete_def
      split: option.splits prod.splits)

lemma absent_click_run: "subscription c = None \<Longrightarrow> subscription (run es c) = None"
proof (induction es arbitrary: c)
  case Nil
  then show ?case by simp
next
  case (Cons e es)
  then show ?case by (simp add: absent_click_step)
qed

lemma destroy_closes_click:
  "subscription c = Some sub \<Longrightarrow>
   \<exists>sub'. subscription (step Destroy c) = Some sub' \<and> closed sub'"
  by (auto simp: teardown_callback_def toObservable_cleanup_def subject_complete_def
      subscriber_complete_def unsubscribe_def split: option.splits)

text \<open>
  Once the component has been destroyed, the observer of \<^verbatim>\<open>clickCount$\<close> is handed
  nothing more, whatever the host does next.
\<close>

theorem destroy_stops_click_stream:
  "click_received (run es (step Destroy c)) = click_received (step Destroy c)"
proof (cases "subscription c")
  case None
  then have "subscription (step Destroy c) = None"
    by (rule absent_click_step)
  then show ?thesis
    by (simp add: click_received_def absent_click_run)
next
  case (Some sub)
  then obtain sub' where s: "subscription (step Destroy c) = Some sub'" "closed sub'"
    using destroy_closes_click by blast
  then show ?thesis
    by (simp add: click_received_def closed_click_run del: step.simps)
qed

text \<open>
  A click on the button is a call of \<^verbatim>\<open>onClick\<close> followed by the host's flush of
  effects; \<open>n\<close> clicks are \<open>n\<close> such pairs.
\<close>

lemma run_clicks_funpow:
  "run (replicate n Click) c = ((flush_effects \<circ> onClick) ^^ n) c"
proof (induction n arbitrary: c)
  case 0
  then show ?case by simp
next
  case (Suc n)
  have "run (replicate (Suc n) Click) c = run (replicate n Click) (flush_effects (onClick c))"
    by simp
  also have "\<dots> = ((flush_effects \<circ> onClick) ^^ n) (flush_effects (onClick c))"
    by (rule Suc.IH)
  also have "\<dots> = ((flush_effects \<circ> onClick) ^^ Suc n) c"
    by (simp only: funpow_Suc_right comp_apply)
  finally show ?case .
qed

text \<open>
  Calls of \<^verbatim>\<open>onClick\<close> alone: the signal counts them and the effect waits for the
  next flush; the observer is handed nothing by the calls themselves.
\<close>

lemma onClick_calls:
  "(onClick ^^ Suc n) c = c\<lparr>clickCount := clickCount c + Suc n, watcher_scheduled := True\<rparr>"
  by (induction n) (simp_all add: onClick_def)

lemma onClick_calls_count: "clickCount ((onClick ^^ n) c) = clickCount c + n"
  by (induction n) (simp_all add: onClick_def)

lemma onClick_calls_received: "click_received ((onClick ^^ n) c) = click_received c"
  by (induction n) (simp_all add: onClick_def click_received_def)

lemma onClick_calls_console: "console ((onClick ^^ n) c) = console c"
  by (induction n) (simp_all add: onClick_def)

lemma calls_then_one_flush:
  assumes "live c"
  shows "click_received (flush_effects ((onClick ^^ Suc n) c)) =
      click_received c @ [Next (clickCount c + Suc n)]"
    and "console (flush_effects ((onClick ^^ Suc n) c)) =
      console c @ [Str (clicked_message (clickCount c + Suc n))]"
  using assms
  by (auto simp only: onClick_calls)
    (auto simp: live_def flush_effects_def subject_next_def subject_deliver_def
      subscriber_next_def click_observer_def click_received_def split: option.splits)

lemma emissions_map_Next: "emissions (map Next xs) = length xs"
  by (induction xs) simp_all

lemma clicked_message_digits:
  "clicked_message 0 = ''Clicked button 0 times.''"
  "clicked_message (Suc 0) = ''Clicked button 1 times.''"
  "clicked_message (Suc (Suc 0)) = ''Clicked button 2 times.''"
  "clicked_message (Suc (Suc (Suc 0))) = ''Clicked button 3 times.''"
  by (simp_all add: clicked_message_def string_of_nat.simps)

text \<open>
  Claim C4, as the code has it. \<open>n\<close> calls of \<^verbatim>\<open>onClick\<close> from the initialised
  component leave the signal at \<open>n\<close>. The observer of \<^verbatim>\<open>clickCount$\<close> is handed values
  by the host's flush of effects, not by the calls: when every call is followed by a
  flush, as for clicks on the button, it has been handed the initial 0 and then one
  value per call, \<open>n + 1\<close> emissions in all; calls with no flush between them hand it
  nothing, and the one flush after them hands it one value, the latest count.
\<close>

theorem C4_calls_count_n_flushes_emit:
  "clickCount ((onClick ^^ n) initialised) = n
   \<and> clickCount (((flush_effects \<circ> onClick) ^^ n) initialised) = n
   \<and> click_received (((flush_effects \<circ> onClick) ^^ n) initialised) = map Next [0..<Suc n]
   \<and> emissions (click_received (((flush_effects \<circ> onClick) ^^ n) initialised)) = Suc n
   \<and> click_received ((onClick ^^ n) initialised) = [Next 0]
   \<and> click_received (flush_effects ((onClick ^^ Suc n) initialised)) = [Next 0, Next (Suc n)]"
proof -
  have u: "[0..<Suc n] = 0 # [Suc 0..<Suc n]"
    by (simp add: upt_conv_Cons del: upt_Suc)
  have f: "((flush_effects \<circ> onClick) ^^ n) initialised = run (replicate n Click) initialised"
    by (rule run_clicks_funpow [symmetric])
  have a: "clickCount ((onClick ^^ n) initialised) = n"
    by (simp add: onClick_calls_count initialised_obs)
  have k: "clickCount (((flush_effects \<circ> onClick) ^^ n) initialised) = n"
    unfolding f using clicks_live [OF live_initialised, of n] by (simp add: initialised_obs)
  have r: "click_received (((flush_effects \<circ> onClick) ^^ n) initialised) = map Next [0..<Suc n]"
    unfolding f using clicks_live [OF live_initialised, of n]
    by (simp only: u) (simp add: initialised_obs del: upt_Suc)
  have m: "emissions (click_received (((flush_effects \<circ> onClick) ^^ n) initialised)) = Suc n"
    by (simp only: r emissions_map_Next) simp
  have b: "click_received ((onClick ^^ n) initialised) = [Next 0]"
    by (simp add: onClick_calls_received initialised_obs)
  have c: "click_received (flush_effects ((onClick ^^ Suc n) initialised)) =
      [Next 0, Next (Suc n)]"
    by (simp add: calls_then_one_flush(1) [OF live_initialised] initialised_obs
        del: funpow.simps)
  show ?thesis
    using a k r m b c by (intro conjI)
qed

text \<open>
  Claim C4 as stated counts one change emission per call of \<^verbatim>\<open>onClick\<close>. Two calls
  from the initialised component leave the signal at 2 and have handed the observer
  nothing new; the flush that follows hands it the single value 2. Either way the
  observer has not been handed two change emissions next to the initial one.
\<close>

theorem C4_calls_without_flush_counterexample:
  "clickCount (onClick (onClick initialised)) = 2
   \<and> click_received (onClick (onClick initialised)) = [Next 0]
   \<and> click_received (flush_effects (onClick (onClick initialised))) = [Next 0, Next 2]
   \<and> emissions (click_received (onClick (onClick initialised))) \<noteq> 2 + 1
   \<and> emissions (click_received (flush_effects (onClick (onClick initialised)))) \<noteq> 2 + 1"
  by (simp add: initialised_eq onClick_def flush_effects_def subject_next_def
      subject_deliver_def subscriber_next_def click_observer_def click_received_def)

text \<open>
  Claim C5, as the code has it. The call of \<^verbatim>\<open>subscribe\<close> in \<^verbatim>\<open>ngOnInit\<close> hands the
  observer of \<^verbatim>\<open>clickCount$\<close> nothing: the effect of \<^verbatim>\<open>toObservable\<close> has not run yet.
  The host's first flush of effects, which ends the initialisation, hands it one
  emission, the signal's value 0, and logs it. From then on every call of
  \<^verbatim>\<open>onClick\<close> that is followed by a flush, as for a click on the button, adds one
  emission, the new count. After initialisation and three such clicks the console reads
  0, 1, 2, 3 in this order and the signal holds 3.
\<close>

theorem C5_initial_value_at_first_flush_then_one_per_click:
  "click_received (ngOnInit constructed) = []
   \<and> click_received (flush_effects (ngOnInit constructed)) = [Next 0]
   \<and> console (flush_effects (ngOnInit constructed)) = [Str ''Clicked button 0 times.'']
   \<and> click_received (((flush_effects \<circ> onClick) ^^ Suc n) (flush_effects (ngOnInit constructed))) =
       click_received (((flush_effects \<circ> onClick) ^^ n) (flush_effects (ngOnInit constructed)))
         @ [Next (Suc n)]
   \<and> console (((flush_effects \<circ> onClick) ^^ Suc n) (flush_effects (ngOnInit constructed))) =
       console (((flush_effects \<circ> onClick) ^^ n) (flush_effects (ngOnInit constructed)))
         @ [Str (clicked_message (Suc n))]
   \<and> console (flush_effects (onClick (flush_effects (onClick (flush_effects (onClick
         (flush_effects (ngOnInit constructed)))))))) =
       [Str ''Clicked button 0 times.'', Str ''Clicked button 1 times.'',
        Str ''Clicked button 2 times.'', Str ''Clicked button 3 times.'']
   \<and> click_received (flush_effects (onClick (flush_effects (onClick (flush_effects (onClick
         (flush_effects (ngOnInit constructed)))))))) = [Next 0, Next 1, Next 2, Next 3]
   \<and> clickCount (flush_effects (onClick (flush_effects (onClick (flush_effects (onClick
         (flush_effects (ngOnInit constructed)))))))) = 3"
proof -
  have z: "click_received (ngOnInit constructed) = []"
    by (simp add: ngOnInit_def constructed_def new_subscriber_def click_received_def)
  have a: "click_received initialised = [Next 0]"
    "console initialised = [Str ''Clicked button 0 times.'']"
    by (simp_all add: initialised_obs clicked_message_digits)
  have f: "((flush_effects \<circ> onClick) ^^ k) initialised = run (replicate k Click) initialised"
    for k
    by (rule run_clicks_funpow [symmetric])
  have b: "click_received (((flush_effects \<circ> onClick) ^^ Suc n) initialised) =
       click_received (((flush_effects \<circ> onClick) ^^ n) initialised) @ [Next (Suc n)]"
    "console (((flush_effects \<circ> onClick) ^^ Suc n) initialised) =
       console (((flush_effects \<circ> onClick) ^^ n) initialised) @ [Str (clicked_message (Suc n))]"
    unfolding f
    using clicks_live [OF live_initialised, of n] clicks_live [OF live_initialised, of "Suc n"]
    by (simp_all add: initialised_obs del: replicate_Suc run.simps)
  have r: "flush_effects (onClick (flush_effects (onClick (flush_effects (onClick initialised)))))
      = run (replicate 3 Click) initialised"
    by (simp add: numeral_eq_Suc)
  have c: "console (flush_effects (onClick (flush_effects (onClick (flush_effects (onClick
         initialised)))))) =
       [Str ''Clicked button 0 times.'', Str ''Clicked button 1 times.'',
        Str ''Clicked button 2 times.'', Str ''Clicked button 3 times.'']"
    "click_received (flush_effects (onClick (flush_effects (onClick (flush_effects (onClick
         initialised)))))) = [Next 0, Next 1, Next 2, Next 3]"
    "clickCount (flush_effects (onClick (flush_effects (onClick (flush_effects (onClick
         initialised)))))) = 3"
    unfolding r
    using clicks_live [OF live_initialised, of 3]
    by (simp_all add: initialised_obs clicked_message_digits upt_conv_Cons numeral_eq_Suc
        del: replicate_Suc run.simps upt_Suc)
  show ?thesis
    using z a b c unfolding initialised_def by (intro conjI)
qed

text \<open>
  Claim C5 as stated has the subscriber handed the value 0 by the subscription itself and
  one value per call of \<^verbatim>\<open>onClick\<close>. Right after \<^verbatim>\<open>ngOnInit\<close> the observer has been
  handed nothing and the console is empty; and three calls of \<^verbatim>\<open>onClick\<close> after the
  initialisation, followed by one flush, leave the signal at 3 and the console at 0, 3.
\<close>

theorem C5_subscribe_and_calls_counterexample:
  "click_received (ngOnInit constructed) = []
   \<and> console (ngOnInit constructed) = []
   \<and> clickCount (flush_effects (onClick (onClick (onClick initialised)))) = 3
   \<and> console (flush_effects (onClick (onClick (onClick initialised)))) =
       [Str ''Clicked button 0 times.'', Str ''Clicked button 3 times.'']
   \<and> console (flush_effects (onClick (onClick (onClick initialised)))) \<noteq>
       [Str ''Clicked button 0 times.'', Str ''Clicked button 1 times.'',
        Str ''Clicked button 2 times.'', Str ''Clicked button 3 times.'']"
  by (simp add: initialised_eq ngOnInit_def constructed_def new_subscriber_def onClick_def
      flush_effects_def subject_next_def subject_deliver_def subscriber_next_def
      click_observer_def click_received_def clicked_message_def string_of_nat.simps)

lemma unsubscribe_idem: "unsubscribe (unsubscribe sub) = unsubscribe sub"
  by (simp add: unsubscribe_def)

lemma teardown_callback_idem: "teardown_callback (teardown_callback c) = teardown_callback c"
  by (cases "subscription c") (simp_all add: teardown_callback_def unsubscribe_idem)

lemma destroy_idem: "step Destroy (step Destroy c) = step Destroy c"
  by (cases "subscription c")
    (simp_all add: teardown_callback_def toObservable_cleanup_def subject_complete_def
      subscriber_complete_def unsubscribe_def split: prod.splits)

lemma teardown_after_cleanup:
  assumes "coherent c"
  shows "teardown_callback (toObservable_cleanup c) = toObservable_cleanup c"
  using assms
  by (cases "subscription c")
    (auto simp: coherent_def teardown_callback_def toObservable_cleanup_def
      subject_complete_def subscriber_complete_def unsubscribe_def split: if_splits)

lemma coherent_finalized:
  assumes "coherent c"
  shows "click_finalized c \<le> 1" and "custom_finalized c \<le> 1"
  using assms
  by (auto simp: coherent_def click_finalized_def custom_finalized_def split: option.splits)

text \<open>
  Claim C6. Cancelling is idempotent. The teardown callback run twice, or the whole
  destruction run twice, leaves the state of the first run; \<^verbatim>\<open>unsubscribe()\<close> on a
  subscriber that is already closed (by an earlier call or by the completion of its
  stream) changes nothing. Nothing in these paths can raise: no teardown function is
  registered, and each function of the model is total with no error result. In the
  component the teardown callback always runs after \<^verbatim>\<open>toObservable\<close>'s own cleanup has
  completed the stream, and changes nothing then. Whatever the host does, and however
  often it destroys the component, the guarded body of \<^verbatim>\<open>unsubscribe()\<close> runs at most
  once for each of the two subscriptions; for a \<^verbatim>\<open>customInterval$\<close> subscription
  that has completed, \<open>cancel\<close> changes nothing.
\<close>

theorem C6_cancellation_idempotent:
  "teardown_callback (teardown_callback c) = teardown_callback c
   \<and> run [Destroy, Destroy] c = run [Destroy] c
   \<and> unsubscribe (unsubscribe sub) = unsubscribe sub
   \<and> unsubscribe (sub\<lparr>closed := True\<rparr>) = sub\<lparr>closed := True\<rparr>
   \<and> cancel (cancel st) = cancel st
   \<and> cancel (fst (ticks obs (5 + n) customInterval_subscribe)) =
       fst (ticks obs (5 + n) customInterval_subscribe)
   \<and> teardown_callback (toObservable_cleanup (run es initialised)) =
       toObservable_cleanup (run es initialised)
   \<and> click_finalized (run es initialised) \<le> 1
   \<and> custom_finalized (run es initialised) \<le> 1"
proof -
  have co: "coherent (run es initialised)"
    using run_invariant [OF coherent_initialised accounted_initialised] by simp
  have a: "run [Destroy, Destroy] c = run [Destroy] c"
    using destroy_idem [of c] by (simp del: step.simps)
  have b: "unsubscribe (sub\<lparr>closed := True\<rparr>) = sub\<lparr>closed := True\<rparr>"
    by (simp add: unsubscribe_def)
  have d: "cancel (cancel st) = cancel st"
    by (simp add: cancel_def unsubscribe_idem)
  have e: "cancel (fst (ticks obs (5 + n) customInterval_subscribe)) =
       fst (ticks obs (5 + n) customInterval_subscribe)"
    by (simp add: ticks_fresh cancel_def unsubscribe_def)
  show ?thesis
    using a b d e teardown_callback_idem [of c] unsubscribe_idem [of sub]
      teardown_after_cleanup [OF co] coherent_finalized [OF co]
    by (intro conjI)
qed

text \<open>
  Claim C8, as the code has it. Whatever the host does after initialisation, the
  console holds two lines for every emission of \<^verbatim>\<open>customInterval$\<close> (the line
  \<^verbatim>\<open>Emitting new value...\<close> of the timer callback and the emitted object), one line
  \<^verbatim>\<open>COMPLETED\<close> for its completion, one line for every emission of \<^verbatim>\<open>clickCount$\<close>,
  and nothing else. The console is the only output of the model.
\<close>

theorem C8_console_lines_per_emission:
  "length (console (run es initialised)) =
     2 * emissions (custom_received (run es initialised))
       + completions (custom_received (run es initialised))
       + emissions (click_received (run es initialised))
   \<and> count_list (console (run es initialised)) (Str ''Emitting new value...'') =
       emissions (custom_received (run es initialised))
   \<and> count_list (console (run es initialised)) (Obj new_value) =
       emissions (custom_received (run es initialised))
   \<and> count_list (console (run es initialised)) (Str ''COMPLETED'') =
       completions (custom_received (run es initialised))"
  using run_invariant [OF coherent_initialised accounted_initialised, of es]
  by (simp add: accounted_def)

text \<open>
  Claim C8 as stated wants one line per emission. After initialisation and one period
  of the timer two emissions have happened (the initial click count and the first
  payload) and the console holds three lines.
\<close>

theorem C8_console_lines_counterexample:
  "console (run [Tick] initialised) =
     [Str ''Clicked button 0 times.'', Str ''Emitting new value...'', Obj new_value]
   \<and> emissions (custom_received (run [Tick] initialised)) = 1
   \<and> emissions (click_received (run [Tick] initialised)) = 1
   \<and> completions (custom_received (run [Tick] initialised)) = 0
   \<and> length (console (run [Tick] initialised)) \<noteq>
       emissions (custom_received (run [Tick] initialised))
         + emissions (click_received (run [Tick] initialised))
         + completions (custom_received (run [Tick] initialised))"
  by (simp add: initialised_eq timer_tick_def tick_def interval_callback_def
      subscriber_next_def customInterval_subscribe_def new_subscriber_def custom_observer_def
      custom_received_def click_received_def clicked_message_def string_of_nat.simps)

text \<open>
  Claim C2, at the input where the code departs from it. \<^verbatim>\<open>ngOnInit\<close> keeps the handle
  of its \<^verbatim>\<open>clickCount$\<close> subscription only, so the teardown callback cancels that one
  and the \<^verbatim>\<open>customInterval$\<close> subscription stays open: destroyed right after its
  initialisation, the component still hands the payload to its observer and logs it
  when the timer's first period elapses.
\<close>

theorem C2_custom_interval_outlives_teardown:
  "custom_received (run [Destroy] initialised) = []
   \<and> console (run [Destroy] initialised) = [Str ''Clicked button 0 times.'']
   \<and> custom_received (run [Destroy, Tick] initialised) = [Next new_value]
   \<and> console (run [Destroy, Tick] initialised) =
       [Str ''Clicked button 0 times.'', Str ''Emitting new value...'', Obj new_value]"
  by (simp add: initialised_eq timer_tick_def tick_def interval_callback_def
      subscriber_next_def subscriber_complete_def unsubscribe_def customInterval_subscribe_def
      new_subscriber_def custom_observer_def click_observer_def custom_received_def
      teardown_callback_def toObservable_cleanup_def subject_complete_def
      clicked_message_def string_of_nat.simps)


text \<open>
  The component's subscription to \<^verbatim>\<open>customInterval$\<close> is moved by its timer alone:
  neither clicks nor the component's destruction touch it.
\<close>

theorem custom_stream_follows_timer_only:
  "custom_subscription (run es initialised) =
     Some (fst (ticks custom_observer (count_list es Tick) customInterval_subscribe))"
  by (rule custom_subscription_run) (rule initialised_obs)

end
